theory Spec2Isabelle
  imports Complex_Main
begin

section \<open>Tabular value iteration (part1/tabular\_value\_iteration.py)\<close>

text \<open>
  The class \<open>ValueIteration\<close> is embedded over the real numbers: a numpy array of shape
  \<open>(S, A, S)\<close> is a nested list, a vector a list, a float a \<open>real\<close>; rounding, \<open>inf\<close>
  and \<open>nan\<close> are outside the model. The exceptions the code can raise on arrays of
  consistent shape are values of \<open>error\<close>: the \<open>assert\<close> of the constructor, numpy's
  \<open>ValueError\<close> for \<open>np.max\<close> and \<open>np.argmax\<close> of a zero-size array, and Python's
  \<open>ZeroDivisionError\<close> for a division or a modulus by zero on scalars (\<open>precision\<close>,
  \<open>discount\<close>, \<open>log_itr\<close>, \<open>render_itr\<close>). The division of an array by the temperature
  is numpy's and raises nothing; where it matters the statements take a temperature
  other than 0.
\<close>

subsection \<open>Data model\<close>

datatype error = AssertionError | ValueError | ZeroDivisionError

record env =
  env_transitions :: "real list list list"
  env_rewards :: "real list list list"
  env_discount :: real

record ValueIteration =
  env :: env
  transitions :: "real list list list"
  rewards :: "real list list list"
  value_fun :: "real list"
  policy :: "real list list"
  discount :: real
  precision :: real
  log_itr :: int
  policy_type :: string
  max_itr :: int
  render_itr :: int
  render :: bool
  num_rollouts :: int
  temperature :: real
  eps :: real

subsection \<open>The numpy operations the class uses\<close>

definition np_sum :: "real list \<Rightarrow> real" where
  "np_sum xs = sum_list xs"

text \<open>\<open>np.max\<close> raises \<open>ValueError\<close> on a zero-size array.\<close>

fun np_max :: "real list \<Rightarrow> error + real" where
  "np_max [] = Inl ValueError"
| "np_max (x # xs) = Inr (fold max xs x)"

text \<open>
  \<open>np.argmax\<close> scans from the left and moves to a later index only for a strictly larger
  entry, so it returns the first index of the maximum.
\<close>

fun argmax_scan :: "real list \<Rightarrow> nat \<Rightarrow> nat \<Rightarrow> real \<Rightarrow> nat" where
  "argmax_scan [] i best m = best"
| "argmax_scan (x # xs) i best m =
     (if m < x then argmax_scan xs (Suc i) i x else argmax_scan xs (Suc i) best m)"

fun np_argmax :: "real list \<Rightarrow> error + nat" where
  "np_argmax [] = Inl ValueError"
| "np_argmax (x # xs) = Inr (argmax_scan xs 1 0 x)"

subsection \<open>The Bellman backup\<close>

definition num_states :: "ValueIteration \<Rightarrow> nat" where
  "num_states st = length (transitions st)"

text \<open>\<open>transitions.shape[1]\<close>: the length of the rows of the tensor.\<close>

definition num_actions :: "ValueIteration \<Rightarrow> nat" where
  "num_actions st = (case transitions st of [] \<Rightarrow> 0 | row # _ \<Rightarrow> length row)"

text \<open>
  Modelled from the spec: the class of the value container is not among the sources;
  by the spec's container contract \<open>get_values()\<close> without an argument returns all the
  stored values.
\<close>

definition get_values :: "ValueIteration \<Rightarrow> real list" where
  "get_values st = value_fun st"

text \<open>
  \<open>np.sum(transitions[s, a] * (rewards[s, a] + discount * get_values()))\<close>, the
  arithmetic being elementwise on vectors of one length.
\<close>

definition expected_value :: "ValueIteration \<Rightarrow> nat \<Rightarrow> nat \<Rightarrow> real" where
  "expected_value st s a =
     np_sum (map2 (*) (transitions st ! s ! a)
              (map2 (+) (rewards st ! s ! a) (map ((*) (discount st)) (get_values st))))"

text \<open>
  The inner loop \<open>for a in range(num_actions): v_s[a] = ...\<close> on \<open>v_s = np.zeros(num_actions)\<close>;
  the same four lines open every branch of both public operations.
\<close>

definition action_values :: "ValueIteration \<Rightarrow> nat \<Rightarrow> real list" where
  "action_values st s =
     fold (\<lambda>a v_s. v_s[a := expected_value st s a]) [0..<num_actions st]
       (replicate (num_actions st) 0)"

text \<open>
  The outer loop \<open>for s in range(num_states)\<close>: the body updates the output array or
  raises, and an exception leaves the loop.
\<close>

fun for_states :: "(nat \<Rightarrow> 'a list \<Rightarrow> error + 'a list) \<Rightarrow> nat list \<Rightarrow> 'a list \<Rightarrow> error + 'a list" where
  "for_states body [] out = Inr out"
| "for_states body (s # ss) out =
     (case body s out of Inl e \<Rightarrow> Inl e | Inr out' \<Rightarrow> for_states body ss out')"

definition deterministic_value :: "ValueIteration \<Rightarrow> nat \<Rightarrow> real list \<Rightarrow> error + real list" where
  "deterministic_value st s next_v =
     (let v_s = action_values st s in
      case np_max v_s of Inl e \<Rightarrow> Inl e | Inr m \<Rightarrow> Inr (next_v[s := m]))"

definition max_ent_value :: "ValueIteration \<Rightarrow> nat \<Rightarrow> real list \<Rightarrow> error + real list" where
  "max_ent_value st s next_v =
     (let v_s = action_values st s in
      case np_max v_s of Inl e \<Rightarrow> Inl e
      | Inr m \<Rightarrow>
          let v_s = map (\<lambda>q. q - m) v_s in
          Inr (next_v[s := ln (np_sum (map (\<lambda>q. exp (q / temperature st)) v_s)) * temperature st]))"

definition get_next_values :: "ValueIteration \<Rightarrow> error + real list" where
  "get_next_values st =
     (let next_v = replicate (num_states st) 0 in
      if policy_type st = ''deterministic''
      then for_states (deterministic_value st) [0..<num_states st] next_v
      else if policy_type st = ''max_ent''
      then for_states (max_ent_value st) [0..<num_states st] next_v
      else Inr next_v)"

subsection \<open>Shapes\<close>

text \<open>
  The environment contract: both tensors have shape \<open>(S, A, S)\<close> and the value container
  holds \<open>S\<close> values. On such arrays every index of the loops is in range and the
  elementwise operations pair entries of equal position.
\<close>

definition tensor_shape :: "nat \<Rightarrow> nat \<Rightarrow> real list list list \<Rightarrow> bool" where
  "tensor_shape S A X \<longleftrightarrow>
     length X = S \<and> list_all (\<lambda>row. length row = A \<and> list_all (\<lambda>v. length v = S) row) X"

definition shape_ok :: "ValueIteration \<Rightarrow> bool" where
  "shape_ok st \<longleftrightarrow>
     tensor_shape (num_states st) (num_actions st) (transitions st) \<and>
     tensor_shape (num_states st) (num_actions st) (rewards st) \<and>
     length (value_fun st) = num_states st"

subsection \<open>The specification's Q-values\<close>

text \<open>
  The spec's \<open>Q(s,a) = \<Sum>s'. T[s,a,s'] * (R[s,a,s'] + \<gamma> * V(s'))\<close>, written from the
  spec's words over the value estimate \<open>V\<close> it is given.
\<close>

definition Q_spec :: "ValueIteration \<Rightarrow> real list \<Rightarrow> nat \<Rightarrow> nat \<Rightarrow> real" where
  "Q_spec st V s a =
     (\<Sum>s' < num_states st.
        transitions st ! s ! a ! s' * (rewards st ! s ! a ! s' + discount st * V ! s'))"

definition max_Q_spec :: "ValueIteration \<Rightarrow> real list \<Rightarrow> nat \<Rightarrow> real" where
  "max_Q_spec st V s = Max (Q_spec st V s ` {..< num_actions st})"

subsection \<open>Policy extraction\<close>

text \<open>The source's array \<open>pi\<close> is \<open>pi_arr\<close> here, \<open>pi\<close> being the circle constant.\<close>

definition deterministic_policy :: "ValueIteration \<Rightarrow> nat \<Rightarrow> real list list \<Rightarrow> error + real list list" where
  "deterministic_policy st s pi_arr =
     (let v_s = action_values st s in
      case np_argmax v_s of Inl e \<Rightarrow> Inl e
      | Inr best_action \<Rightarrow> Inr (pi_arr[s := (pi_arr ! s)[best_action := 1]]))"

definition max_ent_policy :: "ValueIteration \<Rightarrow> nat \<Rightarrow> real list list \<Rightarrow> error + real list list" where
  "max_ent_policy st s pi_arr =
     (let v_s = action_values st s in
      case np_max v_s of Inl e \<Rightarrow> Inl e
      | Inr m \<Rightarrow>
          let v_s = map (\<lambda>q. q - m) v_s;
              softmax_probs = map (\<lambda>q. exp (q / temperature st)) v_s;
              softmax_probs = map (\<lambda>p. p / np_sum softmax_probs) softmax_probs
          in Inr (pi_arr[s := softmax_probs]))"

definition get_next_policy :: "ValueIteration \<Rightarrow> error + real list list" where
  "get_next_policy st =
     (let pi_arr = replicate (num_states st) (replicate (num_actions st) 0) in
      if policy_type st = ''deterministic''
      then for_states (deterministic_policy st) [0..<num_states st] pi_arr
      else if policy_type st = ''max_ent''
      then for_states (max_ent_policy st) [0..<num_states st] pi_arr
      else Inr pi_arr)"

subsection \<open>The stopping rule\<close>

text \<open>
  \<open>train\<close> calls \<open>_stop_condition\<close> first with the scalar \<open>1e6\<close> for \<open>next_v\<close> and then
  with arrays; \<open>next_v - v\<close> broadcasts the scalar.
\<close>

datatype ndarray = Scalar real | Array "real list"

fun np_subtract :: "ndarray \<Rightarrow> real list \<Rightarrow> real list" where
  "np_subtract (Scalar c) v = map (\<lambda>x. c - x) v"
| "np_subtract (Array xs) v = map2 (-) xs v"

text \<open>Division of Python floats raises on a zero divisor.\<close>

definition py_div :: "real \<Rightarrow> real \<Rightarrow> error + real" where
  "py_div x y = (if y = 0 then Inl ZeroDivisionError else Inr (x / y))"

text \<open>
  The operands are evaluated in the order of the source: \<open>rmax\<close>, then the left side of
  \<open>cond1\<close>, then its right side from the inside out, then \<open>cond2\<close>.
\<close>

definition stop_condition :: "ValueIteration \<Rightarrow> nat \<Rightarrow> ndarray \<Rightarrow> real list \<Rightarrow> error + bool" where
  "stop_condition st itr next_v v =
     (case np_max (map abs (concat (concat (env_rewards (env st))))) of Inl e \<Rightarrow> Inl e
      | Inr rmax \<Rightarrow>
     (case np_max (map abs (np_subtract next_v v)) of Inl e \<Rightarrow> Inl e
      | Inr change \<Rightarrow>
     (case py_div (2 * discount st) (1 - discount st) of Inl e \<Rightarrow> Inl e
      | Inr ratio \<Rightarrow>
     (case py_div (precision st) ratio of Inl e \<Rightarrow> Inl e
      | Inr bound \<Rightarrow>
     (let cond1 = change < bound in
      case py_div (discount st ^ itr * rmax) (1 - discount st) of Inl e \<Rightarrow> Inl e
      | Inr worst \<Rightarrow>
     (let cond2 = worst < precision st in Inr (cond1 \<or> cond2)))))))"

subsection \<open>Construction\<close>

definition init ::
  "env \<Rightarrow> real list \<Rightarrow> real list list \<Rightarrow> real \<Rightarrow> int \<Rightarrow> int \<Rightarrow> string \<Rightarrow> int \<Rightarrow> bool \<Rightarrow> int \<Rightarrow> real
     \<Rightarrow> error + ValueIteration" where
  "init e value_fun' policy' precision' log_itr' render_itr' policy_type' max_itr' render'
        num_rollouts' temperature' =
     (if policy_type' \<in> set [''deterministic'', ''max_ent'']
      then Inr \<lparr> env = e, transitions = env_transitions e, rewards = env_rewards e,
                 value_fun = value_fun', policy = policy', discount = env_discount e,
                 precision = precision', log_itr = log_itr', policy_type = policy_type',
                 max_itr = max_itr', render_itr = render_itr', render = render',
                 num_rollouts = num_rollouts', temperature = temperature',
                 eps = 1 / 10 ^ 8 \<rparr>
      else Inl AssertionError)"

subsection \<open>The training loop\<close>

text \<open>
  Modelled from the spec: the value and policy containers (\<open>TabularValueFun\<close>,
  \<open>TabularPolicy\<close>) are not among the sources; by the spec's container contract
  \<open>update\<close> replaces the stored table. The rollout, plotting, video and logging
  collaborators are outside the core, are taken to return, and take no part in the
  model; the writes to the two containers are recorded in order. As in the source,
  \<open>v\<close> is read from the value container once, before the loop, and \<open>next_v\<close> starts as
  the scalar \<open>1e6\<close>.
\<close>

definition update_value_fun :: "ValueIteration \<Rightarrow> real list \<Rightarrow> ValueIteration" where
  "update_value_fun st values = st\<lparr>value_fun := values\<rparr>"

definition update_policy :: "ValueIteration \<Rightarrow> real list list \<Rightarrow> ValueIteration" where
  "update_policy st pi_arr = st\<lparr>policy := pi_arr\<rparr>"

datatype event = Value_update "real list" | Policy_update "real list list"

record run =
  raised :: "error option"
  final :: ValueIteration
  final_itr :: nat
  writes :: "event list"

text \<open>
  The first half of the loop body: \<open>log\<close> and \<open>render\<close> are computed with \<open>%\<close>, which
  raises on a zero modulus, and on a logging iteration the policy is recomputed and
  applied.
\<close>

definition log_step :: "ValueIteration \<Rightarrow> nat \<Rightarrow> event list \<Rightarrow> error + ValueIteration \<times> event list" where
  "log_step st itr tr =
     (if log_itr st = 0 then Inl ZeroDivisionError
      else let log = (int itr mod log_itr st = 0) in
      if render_itr st = 0 then Inl ZeroDivisionError
      else let render = (int itr mod render_itr st = 0 \<and> render st) in
      if log then
        (case get_next_policy st of Inl e \<Rightarrow> Inl e
         | Inr next_pi \<Rightarrow> Inr (update_policy st next_pi, tr @ [Policy_update next_pi]))
      else Inr (st, tr))"

function train_loop :: "ValueIteration \<Rightarrow> real list \<Rightarrow> nat \<Rightarrow> ndarray \<Rightarrow> event list \<Rightarrow> run" where
  "train_loop st v itr next_v tr =
     (case stop_condition st itr next_v v of
        Inl e \<Rightarrow> \<lparr> raised = Some e, final = st, final_itr = itr, writes = tr \<rparr>
      | Inr stop \<Rightarrow>
          if \<not> stop \<and> int itr < max_itr st then
            (case log_step st itr tr of
               Inl e \<Rightarrow> \<lparr> raised = Some e, final = st, final_itr = itr, writes = tr \<rparr>
             | Inr (st1, tr1) \<Rightarrow>
                 (case get_next_values st1 of
                    Inl e \<Rightarrow> \<lparr> raised = Some e, final = st1, final_itr = itr, writes = tr1 \<rparr>
                  | Inr nv \<Rightarrow>
                      train_loop (update_value_fun st1 nv) v (Suc itr) (Array nv)
                        (tr1 @ [Value_update nv])))
          else \<lparr> raised = None, final = st, final_itr = itr, writes = tr \<rparr>)"
  by pat_completeness auto
termination
  by (relation "measure (\<lambda>(st, v, itr, next_v, tr). nat (max_itr st - int itr))")
     (auto simp: log_step_def update_value_fun_def update_policy_def Let_def
           split: if_splits sum.splits)

declare train_loop.simps [simp del]

definition train :: "ValueIteration \<Rightarrow> run" where
  "train st =
     (let next_v = Scalar 1000000;
          v = get_values st;
          r = train_loop st v 0 next_v []
      in case raised r of Some e \<Rightarrow> r
         | None \<Rightarrow>
             (case get_next_policy (final r) of
                Inl e \<Rightarrow> r\<lparr>raised := Some e\<rparr>
              | Inr next_pi \<Rightarrow>
                  r\<lparr>final := update_policy (final r) next_pi,
                    writes := writes r @ [Policy_update next_pi]\<rparr>))"

subsection \<open>The specification's formulas\<close>

text \<open>
  Written from the spec's words over \<open>Q_spec\<close>: the stabilised log-sum-exp of
  \<open>computeNextValues\<close> with the maximum added back, the softmax of \<open>computeNextPolicy\<close>,
  and the first action that attains the maximum.
\<close>

definition soft_sum :: "ValueIteration \<Rightarrow> real list \<Rightarrow> nat \<Rightarrow> real" where
  "soft_sum st V s =
     (\<Sum>a < num_actions st. exp ((Q_spec st V s a - max_Q_spec st V s) / temperature st))"

definition max_ent_value_spec :: "ValueIteration \<Rightarrow> real list \<Rightarrow> nat \<Rightarrow> real" where
  "max_ent_value_spec st V s =
     temperature st * ln (soft_sum st V s) + max_Q_spec st V s"

definition softmax_spec :: "ValueIteration \<Rightarrow> real list \<Rightarrow> nat \<Rightarrow> nat \<Rightarrow> real" where
  "softmax_spec st V s a =
     exp ((Q_spec st V s a - max_Q_spec st V s) / temperature st) / soft_sum st V s"

definition first_best_action :: "ValueIteration \<Rightarrow> real list \<Rightarrow> nat \<Rightarrow> nat option" where
  "first_best_action st V s =
     find (\<lambda>a. Q_spec st V s a = max_Q_spec st V s) [0..<num_actions st]"

definition one_hot :: "nat \<Rightarrow> nat option \<Rightarrow> real list" where
  "one_hot n b = map (\<lambda>a. if Some a = b then 1 else 0) [0..<n]"

text \<open>
  The two quantities of the spec's stopping rule: the largest one-step change
  \<open>max_s |nextV(s) - V(s)|\<close>, a scalar \<open>nextV\<close> standing for the same value in every
  state, and \<open>Rmax\<close>, the largest absolute reward of a tensor of shape \<open>(S, A, S)\<close>.
\<close>

fun entry :: "ndarray \<Rightarrow> nat \<Rightarrow> real" where
  "entry (Scalar c) s = c"
| "entry (Array xs) s = xs ! s"

fun same_shape :: "ndarray \<Rightarrow> real list \<Rightarrow> bool" where
  "same_shape (Scalar c) v = True"
| "same_shape (Array xs) v = (length xs = length v)"

definition sup_change_spec :: "ndarray \<Rightarrow> real list \<Rightarrow> real" where
  "sup_change_spec next_v v = Max ((\<lambda>s. \<bar>entry next_v s - v ! s\<bar>) ` {..<length v})"

definition Rmax_spec :: "nat \<Rightarrow> nat \<Rightarrow> real list list list \<Rightarrow> real" where
  "Rmax_spec S A R = Max ((\<lambda>(s, a, s'). \<bar>R ! s ! a ! s'\<bar>) ` ({..<S} \<times> {..<A} \<times> {..<S}))"

subsection \<open>Counting the writes of a run\<close>

text \<open>
  The number of writes to the value container in a run, and the facts that hold of the
  loop from any of its heads: the counter and the number of value writes advance
  together, the counter stays within the budget, the configuration is kept, and a
  normal exit happens on convergence or on an exhausted budget.
\<close>

fun is_value_update :: "event \<Rightarrow> bool" where
  "is_value_update (Value_update values) = True"
| "is_value_update (Policy_update pi_arr) = False"

definition value_updates :: "event list \<Rightarrow> nat" where
  "value_updates tr = length (filter is_value_update tr)"

definition loop_facts :: "ValueIteration \<Rightarrow> real list \<Rightarrow> nat \<Rightarrow> ndarray \<Rightarrow> event list \<Rightarrow> run \<Rightarrow> bool" where
  "loop_facts st v itr next_v tr r \<longleftrightarrow>
     itr \<le> final_itr r \<and>
     value_updates (writes r) = value_updates tr + (final_itr r - itr) \<and>
     int (final_itr r) \<le> max (int itr) (max_itr st) \<and>
     max_itr (final r) = max_itr st \<and>
     raised r \<noteq> Some AssertionError \<and>
     (value_updates tr < value_updates (writes r) \<longrightarrow>
        stop_condition st itr next_v v = Inr False \<and> int itr < max_itr st) \<and>
     (raised r = None \<longrightarrow>
        \<not> int (final_itr r) < max_itr st \<or>
        (\<exists>nv. stop_condition (final r) (final_itr r) nv v = Inr True))"

subsection \<open>Reading an entry of a result\<close>

text \<open>An entry of a returned vector or table, for statements about one state.\<close>

definition value_at :: "error + real list \<Rightarrow> nat \<Rightarrow> real" where
  "value_at r s = (case r of Inl e \<Rightarrow> 0 | Inr next_v \<Rightarrow> next_v ! s)"

definition policy_at :: "error + real list list \<Rightarrow> nat \<Rightarrow> nat \<Rightarrow> real" where
  "policy_at r s a = (case r of Inl e \<Rightarrow> 0 | Inr pi_arr \<Rightarrow> pi_arr ! s ! a)"

subsection \<open>Concrete environments\<close>

text \<open>
  The spec's concrete scenario: two states, one action, state 1 absorbing,
  \<open>R[0,0,1] = 1\<close>, discount \<open>0.9\<close>, the value container at zero; the remaining
  configuration takes the constructor's defaults.
\<close>

definition scenario_env :: env where
  "scenario_env =
     \<lparr> env_transitions = [[[0, 1]], [[0, 1]]],
       env_rewards = [[[0, 1]], [[0, 0]]],
       env_discount = 9 / 10 \<rparr>"

definition configure :: "env \<Rightarrow> real list \<Rightarrow> string \<Rightarrow> real \<Rightarrow> ValueIteration" where
  "configure e values pt tau =
     \<lparr> env = e, transitions = env_transitions e, rewards = env_rewards e,
       value_fun = values, policy = [], discount = env_discount e,
       precision = 1 / 1000, log_itr = 1, policy_type = pt,
       max_itr = 50, render_itr = 2, render = True,
       num_rollouts = 20, temperature = tau, eps = 1 / 10 ^ 8 \<rparr>"

definition scenario :: "string \<Rightarrow> real \<Rightarrow> ValueIteration" where
  "scenario pt tau = configure scenario_env [0, 0] pt tau"

text \<open>
  Two states and two actions: action 0 stays, action 1 moves to the other state; every
  transition out of state 0 pays 1, so the two actions tie in both states when the
  values are zero.
\<close>

definition tie_env :: env where
  "tie_env =
     \<lparr> env_transitions = [[[1, 0], [0, 1]], [[0, 1], [1, 0]]],
       env_rewards = [[[1, 0], [0, 1]], [[0, 0], [0, 0]]],
       env_discount = 1 / 2 \<rparr>"

definition tie_state :: "string \<Rightarrow> real \<Rightarrow> ValueIteration" where
  "tie_state pt tau = configure tie_env [0, 0] pt tau"

section \<open>Lemmas on the loops\<close>

lemma fold_update_upt:
  "n \<le> length xs \<Longrightarrow>
   fold (\<lambda>i ys. ys[i := f i]) [0..<n] xs = map f [0..<n] @ drop n xs"
proof (induction n)
  case 0
  then show ?case by simp
next
  case (Suc n)
  then have n: "n < length xs" by simp
  have "fold (\<lambda>i ys. ys[i := f i]) [0..<Suc n] xs = (map f [0..<n] @ drop n xs)[n := f n]"
    using Suc by simp
  also have "\<dots> = map f [0..<n] @ (drop n xs)[0 := f n]"
    by (simp add: list_update_append)
  also have "(drop n xs)[0 := f n] = f n # drop (Suc n) xs"
    using n by (simp add: Cons_nth_drop_Suc [symmetric])
  finally show ?case by simp
qed

lemma action_values_eq:
  "action_values st s = map (expected_value st s) [0..<num_actions st]"
  by (simp add: action_values_def fold_update_upt)

lemma np_max_eq_Max: "xs \<noteq> [] \<Longrightarrow> np_max xs = Inr (Max (set xs))"
  by (cases xs) (simp_all add: Max.set_eq_fold [symmetric])

lemma for_states_pointwise:
  assumes "\<And>s out. s \<in> set ss \<Longrightarrow> length out = n \<Longrightarrow> body s out = Inr (out[s := h s (out ! s)])"
    and "distinct ss" and "set ss \<subseteq> {..<n}" and "length out = n"
  shows "for_states body ss out =
           Inr (map (\<lambda>j. if j \<in> set ss then h j (out ! j) else out ! j) [0..<n])"
  using assms
proof (induction ss arbitrary: out)
  case Nil
  then have "map ((!) out) [0..<n] = out" using map_nth [of out] by simp
  then show ?case by simp
next
  case (Cons s ss)
  let ?out = "out[s := h s (out ! s)]"
  have b: "body s out = Inr ?out" using Cons.prems by simp
  have len: "length ?out = n" using Cons.prems by simp
  have "for_states body ss ?out =
          Inr (map (\<lambda>j. if j \<in> set ss then h j (?out ! j) else ?out ! j) [0..<n])"
    using Cons.prems len by (intro Cons.IH) auto
  moreover have "map (\<lambda>j. if j \<in> set ss then h j (?out ! j) else ?out ! j) [0..<n] =
                 map (\<lambda>j. if j \<in> set (s # ss) then h j (out ! j) else out ! j) [0..<n]"
    using Cons.prems by (auto simp: nth_list_update)
  ultimately show ?case using b by simp
qed

lemma for_states_upt:
  assumes "\<And>s out. s < n \<Longrightarrow> length out = n \<Longrightarrow> body s out = Inr (out[s := h s (out ! s)])"
    and "length out = n"
  shows "for_states body [0..<n] out = Inr (map (\<lambda>j. h j (out ! j)) [0..<n])"
proof -
  have "for_states body [0..<n] out =
          Inr (map (\<lambda>j. if j \<in> set [0..<n] then h j (out ! j) else out ! j) [0..<n])"
    using assms by (intro for_states_pointwise) auto
  then show ?thesis by (simp cong: map_cong)
qed

lemma tensor_shape_nth:
  assumes "tensor_shape S A X" and "s < S" and "a < A"
  shows "length (X ! s ! a) = S" and "length (X ! s) = A"
  using assms by (auto simp: tensor_shape_def list_all_length)

lemma sum_list_map2_nth:
  "length xs = n \<Longrightarrow> length ys = n \<Longrightarrow>
   sum_list (map2 f xs ys) = (\<Sum>i<n. f (xs ! i) (ys ! i))"
proof -
  assume l: "length xs = n" "length ys = n"
  have "map2 f xs ys = map (\<lambda>i. f (xs ! i) (ys ! i)) [0..<n]"
    using l by (intro nth_equalityI) auto
  then show ?thesis
    by (simp add: sum_list_sum_nth atLeast0LessThan)
qed

lemma expected_value_eq_Q_spec:
  assumes "shape_ok st" and "s < num_states st" and "a < num_actions st"
  shows "expected_value st s a = Q_spec st (value_fun st) s a"
proof -
  let ?S = "num_states st"
  have lt: "length (transitions st ! s ! a) = ?S" and lr: "length (rewards st ! s ! a) = ?S"
    and lv: "length (value_fun st) = ?S"
    using assms tensor_shape_nth(1) by (auto simp: shape_ok_def)
  let ?inner = "map2 (+) (rewards st ! s ! a) (map ((*) (discount st)) (value_fun st))"
  have li: "length ?inner = ?S" using lr lv by simp
  have "expected_value st s a = (\<Sum>i<?S. transitions st ! s ! a ! i * ?inner ! i)"
    unfolding expected_value_def np_sum_def get_values_def
    using lt li by (rule sum_list_map2_nth)
  also have "\<dots> = Q_spec st (value_fun st) s a"
    unfolding Q_spec_def using lr lv by (intro sum.cong) auto
  finally show ?thesis .
qed

lemma action_values_eq_Q_spec:
  assumes "shape_ok st" and "s < num_states st"
  shows "action_values st s = map (Q_spec st (value_fun st) s) [0..<num_actions st]"
  unfolding action_values_eq using assms by (simp add: expected_value_eq_Q_spec)

lemma np_max_action_values:
  assumes "shape_ok st" and "s < num_states st" and "0 < num_actions st"
  shows "np_max (action_values st s) = Inr (max_Q_spec st (value_fun st) s)"
proof -
  have "action_values st s \<noteq> []"
    using assms by (simp add: action_values_eq)
  then have "np_max (action_values st s) = Inr (Max (set (action_values st s)))"
    by (rule np_max_eq_Max)
  also have "set (action_values st s) = Q_spec st (value_fun st) s ` {..<num_actions st}"
    using assms by (simp add: action_values_eq_Q_spec atLeast0LessThan)
  finally show ?thesis by (simp add: max_Q_spec_def)
qed


lemmas scenario_simps =
  scenario_def scenario_env_def tie_state_def tie_env_def configure_def
  num_states_def num_actions_def shape_ok_def tensor_shape_def

lemma deterministic_value_eq:
  assumes "shape_ok st" and "s < num_states st" and "0 < num_actions st"
  shows "deterministic_value st s out = Inr (out[s := max_Q_spec st (value_fun st) s])"
  using np_max_action_values [OF assms] by (simp add: deterministic_value_def)

section \<open>The deterministic backup\<close>

text \<open>
  C2. In deterministic mode, on tensors of shape \<open>(S, A, S)\<close> with at least one action,
  \<open>get_next_values\<close> returns for every state \<open>s\<close> the maximum over the actions of
  \<open>Q(s,a) = \<Sum>s'. T[s,a,s'] * (R[s,a,s'] + \<gamma> * V(s'))\<close>, every \<open>Q(s,a)\<close> being taken
  over the value estimate the container holds when the call starts: the array under
  construction is never read back.
\<close>

theorem get_next_values_deterministic:
  assumes "shape_ok st" and "policy_type st = ''deterministic''"
    and "0 < num_actions st \<or> num_states st = 0"
  shows "get_next_values st =
           Inr (map (\<lambda>s. max_Q_spec st (value_fun st) s) [0..<num_states st])"
proof -
  have "for_states (deterministic_value st) [0..<num_states st] (replicate (num_states st) 0) =
          Inr (map (\<lambda>s. (\<lambda>s _. max_Q_spec st (value_fun st) s) s
                 (replicate (num_states st) (0::real) ! s)) [0..<num_states st])"
  proof (rule for_states_upt)
    fix s and out :: "real list"
    assume "s < num_states st" and "length out = num_states st"
    then show "deterministic_value st s out = Inr (out[s := max_Q_spec st (value_fun st) s])"
      using assms by (intro deterministic_value_eq) auto
  qed simp
  then show ?thesis using assms(2) by (simp add: get_next_values_def)
qed

theorem get_next_values_deterministic_witness:
  "shape_ok (scenario ''deterministic'' 1) \<and>
   policy_type (scenario ''deterministic'' 1) = ''deterministic'' \<and>
   0 < num_actions (scenario ''deterministic'' 1) \<and>
   get_next_values (scenario ''deterministic'' 1) = Inr [1, 0]"
  using get_next_values_deterministic [of "scenario ''deterministic'' 1"]
  by (simp add: scenario_simps max_Q_spec_def Q_spec_def upt_conv_Cons lessThan_Suc
        numeral_2_eq_2)

section \<open>The maximum-entropy backup\<close>

lemma sum_list_map_upt_lessThan: "sum_list (map f [0..<n]) = (\<Sum>a<n. f a)"
  by (simp add: interv_sum_list_conv_sum_set_nat atLeast0LessThan)

lemma max_ent_value_eq:
  assumes "shape_ok st" and "s < num_states st" and "0 < num_actions st"
  shows "max_ent_value st s out =
           Inr (out[s := ln (soft_sum st (value_fun st) s) * temperature st])"
proof -
  have av: "action_values st s = map (Q_spec st (value_fun st) s) [0..<num_actions st]"
    using assms by (simp add: action_values_eq_Q_spec)
  have mx: "np_max (action_values st s) = Inr (max_Q_spec st (value_fun st) s)"
    using assms by (rule np_max_action_values)
  have "np_sum (map (\<lambda>q. exp (q / temperature st))
          (map (\<lambda>q. q - max_Q_spec st (value_fun st) s) (action_values st s))) =
        soft_sum st (value_fun st) s"
    unfolding av np_sum_def soft_sum_def
    by (simp add: o_def sum_list_map_upt_lessThan)
  then show ?thesis
    using mx by (simp add: max_ent_value_def)
qed

lemma get_next_values_max_ent:
  assumes "shape_ok st" and "policy_type st = ''max_ent''" and "0 < num_actions st"
  shows "get_next_values st =
           Inr (map (\<lambda>s. ln (soft_sum st (value_fun st) s) * temperature st) [0..<num_states st])"
proof -
  have "for_states (max_ent_value st) [0..<num_states st] (replicate (num_states st) 0) =
          Inr (map (\<lambda>s. (\<lambda>s _. ln (soft_sum st (value_fun st) s) * temperature st) s
                 (replicate (num_states st) (0::real) ! s)) [0..<num_states st])"
  proof (rule for_states_upt)
    fix s and out :: "real list"
    assume "s < num_states st" and "length out = num_states st"
    then show "max_ent_value st s out =
                 Inr (out[s := ln (soft_sum st (value_fun st) s) * temperature st])"
      using assms by (intro max_ent_value_eq) auto
  qed simp
  then show ?thesis using assms(2) by (simp add: get_next_values_def)
qed

lemma max_Q_spec_attained:
  assumes "0 < num_actions st"
  shows "\<exists>b < num_actions st. Q_spec st V s b = max_Q_spec st V s"
    and "a < num_actions st \<Longrightarrow> Q_spec st V s a \<le> max_Q_spec st V s"
proof -
  let ?Qs = "Q_spec st V s ` {..<num_actions st}"
  have fin: "finite ?Qs" and ne: "?Qs \<noteq> {}" using assms by auto
  from Max_in [OF fin ne] show "\<exists>b < num_actions st. Q_spec st V s b = max_Q_spec st V s"
    by (auto simp: max_Q_spec_def)
  show "a < num_actions st \<Longrightarrow> Q_spec st V s a \<le> max_Q_spec st V s"
    unfolding max_Q_spec_def using fin by (intro Max_ge) auto
qed

lemma soft_sum_bounds:
  assumes "0 < num_actions st" and "0 < temperature st"
  shows "1 \<le> soft_sum st V s" and "soft_sum st V s \<le> real (num_actions st)"
proof -
  let ?f = "\<lambda>a. exp ((Q_spec st V s a - max_Q_spec st V s) / temperature st)"
  obtain b where b: "b < num_actions st" "Q_spec st V s b = max_Q_spec st V s"
    using max_Q_spec_attained(1) [OF assms(1)] by blast
  have "?f b \<le> sum ?f {..<num_actions st}"
    using b(1) by (intro member_le_sum) auto
  then show "1 \<le> soft_sum st V s" using b(2) by (simp add: soft_sum_def)
  have "\<And>a. a < num_actions st \<Longrightarrow> ?f a \<le> 1"
  proof -
    fix a assume "a < num_actions st"
    then have "Q_spec st V s a - max_Q_spec st V s \<le> 0"
      using max_Q_spec_attained(2) [OF assms(1)] by simp
    then have "(Q_spec st V s a - max_Q_spec st V s) / temperature st \<le> 0"
      using assms(2) by (simp add: divide_nonpos_pos)
    then show "?f a \<le> 1" by simp
  qed
  then have "sum ?f {..<num_actions st} \<le> (\<Sum>a<num_actions st. 1)"
    by (intro sum_mono) auto
  then show "soft_sum st V s \<le> real (num_actions st)" by (simp add: soft_sum_def)
qed

text \<open>
  C1. The spec's max-entropy value adds the per-state maximum of \<open>Q\<close> back after the
  stabilised log-sum-exp. The code subtracts the maximum and never adds it back. On the
  spec's concrete scenario (one action, so the soft value is \<open>Q\<close> itself) the code
  returns \<open>[0, 0]\<close> where the spec's formula gives \<open>[1, 0]\<close>.
\<close>

theorem get_next_values_max_ent_drops_maximum:
  "get_next_values (scenario ''max_ent'' 1) = Inr [0, 0] \<and>
   map (max_ent_value_spec (scenario ''max_ent'' 1) (value_fun (scenario ''max_ent'' 1)))
     [0, 1] = [1, 0]"
  by (simp add: scenario_simps get_next_values_def max_ent_value_def action_values_def
        expected_value_def np_sum_def get_values_def max_ent_value_spec_def soft_sum_def
        max_Q_spec_def Q_spec_def upt_conv_Cons lessThan_Suc numeral_2_eq_2)

text \<open>
  C6. In max-entropy mode with a positive temperature, on tensors of shape \<open>(S, A, S)\<close>
  with at least one action, every entry of the vector \<open>get_next_values\<close> returns lies
  between \<open>0\<close> and \<open>\<tau> * ln A\<close>, whatever the tensors, the discount and the current
  values are; with a single action every entry is \<open>0\<close>.
\<close>

theorem get_next_values_max_ent_range:
  assumes "shape_ok st" and "policy_type st = ''max_ent''"
    and "0 < num_actions st" and "0 < temperature st"
  shows "\<exists>next_v. get_next_values st = Inr next_v \<and> length next_v = num_states st \<and>
           (\<forall>s < num_states st.
              0 \<le> next_v ! s \<and> next_v ! s \<le> temperature st * ln (real (num_actions st))) \<and>
           (num_actions st = 1 \<longrightarrow> (\<forall>s < num_states st. next_v ! s = 0))"
proof -
  let ?nv = "map (\<lambda>s. ln (soft_sum st (value_fun st) s) * temperature st) [0..<num_states st]"
  have r: "get_next_values st = Inr ?nv"
    using assms(1-3) by (rule get_next_values_max_ent)
  have bnd: "0 \<le> ?nv ! s \<and> ?nv ! s \<le> temperature st * ln (real (num_actions st))"
    if "s < num_states st" for s
  proof -
    have lo: "1 \<le> soft_sum st (value_fun st) s"
      and hi: "soft_sum st (value_fun st) s \<le> real (num_actions st)"
      using soft_sum_bounds [OF assms(3,4)] by auto
    have "0 \<le> ln (soft_sum st (value_fun st) s)" using lo by simp
    moreover have "ln (soft_sum st (value_fun st) s) \<le> ln (real (num_actions st))"
      using lo hi by simp
    ultimately show ?thesis using that assms(4) by (simp add: mult.commute)
  qed
  have "\<forall>s < num_states st. ?nv ! s = 0" if one: "num_actions st = 1"
  proof (intro allI impI)
    fix s assume "s < num_states st"
    from bnd [OF this] have "0 \<le> ?nv ! s" and "?nv ! s \<le> 0" using one by simp_all
    then show "?nv ! s = 0" by (rule order.antisym [rotated])
  qed
  then show ?thesis using r bnd by (intro exI [of _ ?nv]) (simp del: nth_map)
qed

theorem get_next_values_max_ent_range_witness:
  "shape_ok (tie_state ''max_ent'' 1) \<and> policy_type (tie_state ''max_ent'' 1) = ''max_ent'' \<and>
   0 < num_actions (tie_state ''max_ent'' 1) \<and> 0 < temperature (tie_state ''max_ent'' 1) \<and>
   (\<exists>next_v. get_next_values (tie_state ''max_ent'' 1) = Inr next_v \<and> length next_v = 2 \<and>
      (\<forall>s < 2. 0 \<le> next_v ! s \<and> next_v ! s \<le> 1 * ln 2))"
  using get_next_values_max_ent_range [of "tie_state ''max_ent'' 1"]
  by (simp add: scenario_simps numeral_2_eq_2)

section \<open>The maximum-entropy policy\<close>

lemma max_ent_policy_eq:
  assumes "shape_ok st" and "s < num_states st" and "0 < num_actions st"
  shows "max_ent_policy st s out =
           Inr (out[s := map (softmax_spec st (value_fun st) s) [0..<num_actions st]])"
proof -
  let ?V = "value_fun st"
  let ?e = "\<lambda>a. exp ((Q_spec st ?V s a - max_Q_spec st ?V s) / temperature st)"
  have av: "action_values st s = map (Q_spec st ?V s) [0..<num_actions st]"
    using assms by (simp add: action_values_eq_Q_spec)
  have mx: "np_max (action_values st s) = Inr (max_Q_spec st ?V s)"
    using assms by (rule np_max_action_values)
  have probs: "map (\<lambda>q. exp (q / temperature st))
                 (map (\<lambda>q. q - max_Q_spec st ?V s) (action_values st s)) =
               map ?e [0..<num_actions st]"
    unfolding av by (simp add: o_def)
  have total: "np_sum (map ?e [0..<num_actions st]) = soft_sum st ?V s"
    by (simp add: np_sum_def soft_sum_def sum_list_map_upt_lessThan)
  have "map (\<lambda>p. p / soft_sum st ?V s) (map ?e [0..<num_actions st]) =
        map (softmax_spec st ?V s) [0..<num_actions st]"
    by (simp add: softmax_spec_def)
  then show ?thesis
    by (simp only: max_ent_policy_def Let_def mx sum.case probs total)
qed

lemma get_next_policy_max_ent_eq:
  assumes "shape_ok st" and "policy_type st = ''max_ent''" and "0 < num_actions st"
  shows "get_next_policy st =
           Inr (map (\<lambda>s. map (softmax_spec st (value_fun st) s) [0..<num_actions st])
                  [0..<num_states st])"
proof -
  let ?row = "\<lambda>s. map (softmax_spec st (value_fun st) s) [0..<num_actions st]"
  let ?pi0 = "replicate (num_states st) (replicate (num_actions st) (0::real))"
  have "for_states (max_ent_policy st) [0..<num_states st] ?pi0 =
          Inr (map (\<lambda>s. (\<lambda>s _. ?row s) s (?pi0 ! s)) [0..<num_states st])"
  proof (rule for_states_upt)
    fix s and out :: "real list list"
    assume "s < num_states st" and "length out = num_states st"
    then show "max_ent_policy st s out = Inr (out[s := ?row s])"
      using assms by (intro max_ent_policy_eq) auto
  qed simp
  then show ?thesis using assms(2) by (simp add: get_next_policy_def)
qed

lemma softmax_spec_row:
  assumes "0 < num_actions st"
  shows "(\<Sum>a < num_actions st. softmax_spec st V s a) = 1"
    and "0 \<le> softmax_spec st V s a"
proof -
  let ?e = "\<lambda>a. exp ((Q_spec st V s a - max_Q_spec st V s) / temperature st)"
  have pos: "0 < soft_sum st V s"
    unfolding soft_sum_def using assms by (intro sum_pos) auto
  have "(\<Sum>a < num_actions st. softmax_spec st V s a) = sum ?e {..<num_actions st} / soft_sum st V s"
    by (simp add: softmax_spec_def sum_divide_distrib)
  also have "\<dots> = 1" using pos by (simp add: soft_sum_def)
  finally show "(\<Sum>a < num_actions st. softmax_spec st V s a) = 1" .
  show "0 \<le> softmax_spec st V s a"
    using pos by (simp add: softmax_spec_def)
qed

text \<open>
  C5. In max-entropy mode with a nonzero temperature, on tensors of shape \<open>(S, A, S)\<close>
  with at least one action, \<open>get_next_policy\<close> returns an \<open>S \<times> A\<close> array whose entry
  \<open>(s, a)\<close> is \<open>exp((Q(s,a) - max Q(s,.)) / \<tau>)\<close> divided by the sum of these exponentials
  over the actions; every row sums to 1 and every entry is nonnegative.
\<close>

theorem get_next_policy_max_ent:
  assumes "shape_ok st" and "policy_type st = ''max_ent''"
    and "0 < num_actions st" and "temperature st \<noteq> 0"
  shows "\<exists>P. get_next_policy st = Inr P \<and> length P = num_states st \<and>
           (\<forall>s < num_states st.
              length (P ! s) = num_actions st \<and>
              (\<forall>a < num_actions st. P ! s ! a = softmax_spec st (value_fun st) s a) \<and>
              sum_list (P ! s) = 1 \<and>
              (\<forall>a < num_actions st. 0 \<le> P ! s ! a))"
proof -
  let ?P = "map (\<lambda>s. map (softmax_spec st (value_fun st) s) [0..<num_actions st])
              [0..<num_states st]"
  have "get_next_policy st = Inr ?P"
    using assms(1-3) by (rule get_next_policy_max_ent_eq)
  moreover have "sum_list (?P ! s) = 1" if "s < num_states st" for s
    using that softmax_spec_row(1) [OF assms(3)] by (simp add: sum_list_map_upt_lessThan)
  moreover have "0 \<le> ?P ! s ! a" if "s < num_states st" "a < num_actions st" for s a
    using that softmax_spec_row(2) [OF assms(3)] by simp
  ultimately show ?thesis
    by (intro exI [of _ ?P]) simp
qed

theorem get_next_policy_max_ent_witness:
  "shape_ok (tie_state ''max_ent'' 1) \<and> policy_type (tie_state ''max_ent'' 1) = ''max_ent'' \<and>
   0 < num_actions (tie_state ''max_ent'' 1) \<and> temperature (tie_state ''max_ent'' 1) \<noteq> 0 \<and>
   (\<exists>P. get_next_policy (tie_state ''max_ent'' 1) = Inr P \<and> length P = 2 \<and>
      (\<forall>s < 2. length (P ! s) = 2 \<and> (\<forall>a < 2. P ! s ! a = 1 / 2) \<and>
         sum_list (P ! s) = 1 \<and> (\<forall>a < 2. 0 \<le> P ! s ! a)))"
proof -
  let ?st = "tie_state ''max_ent'' 1"
  have hyps: "shape_ok ?st" "policy_type ?st = ''max_ent''" "0 < num_actions ?st"
    "temperature ?st \<noteq> 0"
    by (simp_all add: scenario_simps)
  have half: "softmax_spec ?st (value_fun ?st) s a = 1 / 2" if "s < 2" "a < 2" for s a
    using that
    by (auto simp: scenario_simps softmax_spec_def soft_sum_def max_Q_spec_def Q_spec_def
          lessThan_Suc numeral_2_eq_2 less_Suc_eq)
  have dims: "num_states ?st = 2" "num_actions ?st = 2"
    by (simp_all add: scenario_simps)
  from get_next_policy_max_ent [OF hyps] obtain P where
    "get_next_policy ?st = Inr P" and "length P = 2"
    and "\<forall>s < 2. length (P ! s) = 2 \<and>
           (\<forall>a < 2. P ! s ! a = softmax_spec ?st (value_fun ?st) s a) \<and>
           sum_list (P ! s) = 1 \<and> (\<forall>a < 2. 0 \<le> P ! s ! a)"
    unfolding dims by blast
  then show ?thesis using hyps half by (intro conjI exI [of _ P]) auto
qed

section \<open>The deterministic policy\<close>

lemma argmax_scan_first_max:
  assumes "length pre = i" and "best < i" and "pre ! best = m"
    and "\<forall>x \<in> set pre. x \<le> m" and "\<forall>j < best. pre ! j < m"
  shows "argmax_scan xs i best m < length (pre @ xs) \<and>
         (\<forall>x \<in> set (pre @ xs). x \<le> (pre @ xs) ! argmax_scan xs i best m) \<and>
         (\<forall>j < argmax_scan xs i best m. (pre @ xs) ! j < (pre @ xs) ! argmax_scan xs i best m)"
  using assms
proof (induction xs arbitrary: pre i best m)
  case Nil
  then show ?case by simp
next
  case (Cons x xs)
  show ?case
  proof (cases "m < x")
    case True
    have "argmax_scan xs (Suc i) i x < length ((pre @ [x]) @ xs) \<and>
         (\<forall>y \<in> set ((pre @ [x]) @ xs). y \<le> ((pre @ [x]) @ xs) ! argmax_scan xs (Suc i) i x) \<and>
         (\<forall>j < argmax_scan xs (Suc i) i x.
            ((pre @ [x]) @ xs) ! j < ((pre @ [x]) @ xs) ! argmax_scan xs (Suc i) i x)"
    proof (rule Cons.IH)
      show "\<forall>y \<in> set (pre @ [x]). y \<le> x" using Cons.prems True by fastforce
      show "\<forall>j < i. (pre @ [x]) ! j < x"
      proof (intro allI impI)
        fix j assume "j < i"
        then have "pre ! j \<in> set pre" using Cons.prems(1) by simp
        then have "pre ! j \<le> m" using Cons.prems(4) by blast
        then show "(pre @ [x]) ! j < x"
          using True \<open>j < i\<close> Cons.prems(1) by (simp add: nth_append)
      qed
    qed (use Cons.prems in \<open>simp_all add: nth_append\<close>)
    then show ?thesis using True by simp
  next
    case False
    have "argmax_scan xs (Suc i) best m < length ((pre @ [x]) @ xs) \<and>
         (\<forall>y \<in> set ((pre @ [x]) @ xs). y \<le> ((pre @ [x]) @ xs) ! argmax_scan xs (Suc i) best m) \<and>
         (\<forall>j < argmax_scan xs (Suc i) best m.
            ((pre @ [x]) @ xs) ! j < ((pre @ [x]) @ xs) ! argmax_scan xs (Suc i) best m)"
    proof (rule Cons.IH)
      show "\<forall>y \<in> set (pre @ [x]). y \<le> m" using Cons.prems False by auto
      show "\<forall>j < best. (pre @ [x]) ! j < m"
        using Cons.prems by (simp add: nth_append)
    qed (use Cons.prems in \<open>simp_all add: nth_append\<close>)
    then show ?thesis using False by simp
  qed
qed

lemma np_argmax_first_max:
  assumes "xs \<noteq> []"
  shows "\<exists>b. np_argmax xs = Inr b \<and> b < length xs \<and> xs ! b = Max (set xs) \<and>
           (\<forall>j < b. xs ! j \<noteq> Max (set xs))"
proof -
  obtain x ys where xs: "xs = x # ys" using assms by (cases xs) auto
  let ?b = "argmax_scan ys 1 0 x"
  have inv: "?b < length ([x] @ ys) \<and> (\<forall>y \<in> set ([x] @ ys). y \<le> ([x] @ ys) ! ?b) \<and>
        (\<forall>j < ?b. ([x] @ ys) ! j < ([x] @ ys) ! ?b)"
    by (rule argmax_scan_first_max) simp_all
  then have b: "?b < length xs" and ub: "\<forall>y \<in> set xs. y \<le> xs ! ?b"
    and first: "\<forall>j < ?b. xs ! j < xs ! ?b"
    by (simp_all add: xs)
  have "Max (set xs) = xs ! ?b"
    using b ub by (intro Max_eqI) auto
  then show ?thesis using b first by (auto simp: xs)
qed

lemma first_best_action_Some:
  assumes "0 < num_actions st"
  shows "\<exists>b < num_actions st. first_best_action st V s = Some b \<and>
           Q_spec st V s b = max_Q_spec st V s \<and>
           (\<forall>a < b. Q_spec st V s a < max_Q_spec st V s)"
proof -
  let ?A = "num_actions st"
  let ?xs = "map (Q_spec st V s) [0..<?A]"
  have ne: "?xs \<noteq> []" using assms by simp
  have mx: "Max (set ?xs) = max_Q_spec st V s"
    by (simp add: max_Q_spec_def atLeast0LessThan)
  obtain b where b: "b < ?A" "Q_spec st V s b = max_Q_spec st V s"
    "\<forall>j < b. Q_spec st V s j \<noteq> max_Q_spec st V s"
    using np_argmax_first_max [OF ne] unfolding mx by auto
  have fb: "first_best_action st V s = Some b"
    unfolding first_best_action_def find_Some_iff using b by (intro exI [of _ b]) simp
  have "Q_spec st V s a < max_Q_spec st V s" if "a < b" for a
  proof -
    have "Q_spec st V s a \<le> max_Q_spec st V s"
      using that b(1) max_Q_spec_attained(2) [OF assms] by simp
    then show ?thesis using b(3) that by (simp add: less_le)
  qed
  then show ?thesis using b fb by blast
qed

lemma np_argmax_action_values:
  assumes "shape_ok st" and "s < num_states st" and "0 < num_actions st"
  shows "np_argmax (action_values st s) = Inr (the (first_best_action st (value_fun st) s))"
proof -
  let ?V = "value_fun st" and ?A = "num_actions st"
  have av: "action_values st s = map (Q_spec st ?V s) [0..<?A]"
    using assms by (simp add: action_values_eq_Q_spec)
  then have ne: "action_values st s \<noteq> []" using assms(3) by simp
  have mx: "Max (set (action_values st s)) = max_Q_spec st ?V s"
    using np_max_action_values [OF assms(1-3)] np_max_eq_Max [OF ne] by simp
  obtain b where b: "np_argmax (action_values st s) = Inr b" "b < ?A"
    "Q_spec st ?V s b = max_Q_spec st ?V s"
    "\<forall>j < b. Q_spec st ?V s j \<noteq> max_Q_spec st ?V s"
    using np_argmax_first_max [OF ne] unfolding mx by (auto simp: av)
  have "first_best_action st ?V s = Some b"
    unfolding first_best_action_def find_Some_iff using b by (intro exI [of _ b]) simp
  then show ?thesis using b(1) by simp
qed

lemma one_hot_update:
  "b < n \<Longrightarrow> (replicate n 0)[b := 1] = one_hot n (Some b)"
  by (intro nth_equalityI) (auto simp: one_hot_def nth_list_update)

text \<open>
  C4. In deterministic mode, on tensors of shape \<open>(S, A, S)\<close> with at least one action,
  the row of \<open>get_next_policy\<close> for a state \<open>s\<close> is one-hot: 1 at the smallest action
  index that attains the maximum of \<open>Q(s,.)\<close> (every smaller index has a strictly smaller
  \<open>Q\<close>) and 0 elsewhere. The result is a function of the inputs, so repeated calls on
  the same inputs agree.
\<close>

theorem get_next_policy_deterministic:
  assumes "shape_ok st" and "policy_type st = ''deterministic''"
    and "0 < num_actions st \<or> num_states st = 0"
  shows "get_next_policy st =
           Inr (map (\<lambda>s. one_hot (num_actions st) (first_best_action st (value_fun st) s))
                  [0..<num_states st]) \<and>
         (\<forall>s < num_states st. \<exists>b < num_actions st.
            first_best_action st (value_fun st) s = Some b \<and>
            Q_spec st (value_fun st) s b = max_Q_spec st (value_fun st) s \<and>
            (\<forall>a < b. Q_spec st (value_fun st) s a < max_Q_spec st (value_fun st) s))"
proof -
  let ?V = "value_fun st" and ?A = "num_actions st" and ?S = "num_states st"
  let ?pi0 = "replicate ?S (replicate ?A (0::real))"
  let ?h = "\<lambda>s row. row[the (first_best_action st ?V s) := (1::real)]"
  have A: "0 < ?A" if "s < ?S" for s using assms(3) that by auto
  have best: "\<exists>b < ?A. first_best_action st ?V s = Some b \<and>
                Q_spec st ?V s b = max_Q_spec st ?V s \<and>
                (\<forall>a < b. Q_spec st ?V s a < max_Q_spec st ?V s)" if "s < ?S" for s
    using first_best_action_Some [OF A [OF that]] .
  have "for_states (deterministic_policy st) [0..<?S] ?pi0 =
          Inr (map (\<lambda>s. ?h s (?pi0 ! s)) [0..<?S])"
  proof (rule for_states_upt)
    fix s and out :: "real list list"
    assume s: "s < ?S" and "length out = ?S"
    show "deterministic_policy st s out = Inr (out[s := ?h s (out ! s)])"
      using np_argmax_action_values [OF assms(1) s A [OF s]]
      by (simp add: deterministic_policy_def)
  qed simp
  also have "map (\<lambda>s. ?h s (?pi0 ! s)) [0..<?S] =
             map (\<lambda>s. one_hot ?A (first_best_action st ?V s)) [0..<?S]"
  proof (rule map_cong [OF refl])
    fix s assume "s \<in> set [0..<?S]"
    then have s: "s < ?S" by simp
    then obtain b where "b < ?A" "first_best_action st ?V s = Some b"
      using best by blast
    then show "?h s (?pi0 ! s) = one_hot ?A (first_best_action st ?V s)"
      using s by (simp add: one_hot_update)
  qed
  finally show ?thesis using assms(2) best by (simp add: get_next_policy_def)
qed

theorem get_next_policy_deterministic_witness:
  "shape_ok (tie_state ''deterministic'' 1) \<and>
   policy_type (tie_state ''deterministic'' 1) = ''deterministic'' \<and>
   0 < num_actions (tie_state ''deterministic'' 1) \<and>
   Q_spec (tie_state ''deterministic'' 1) [0, 0] 0 0 = Q_spec (tie_state ''deterministic'' 1) [0, 0] 0 1 \<and>
   get_next_policy (tie_state ''deterministic'' 1) = Inr [[1, 0], [1, 0]]"
  using get_next_policy_deterministic [of "tie_state ''deterministic'' 1"]
  by (simp add: scenario_simps one_hot_def first_best_action_def max_Q_spec_def Q_spec_def
        upt_conv_Cons lessThan_Suc numeral_2_eq_2)

section \<open>The stopping rule\<close>

lemma set_concat_tensor:
  assumes "tensor_shape S A R"
  shows "set (concat (concat R)) = (\<lambda>(s, a, s'). R ! s ! a ! s') ` ({..<S} \<times> {..<A} \<times> {..<S})"
proof (intro set_eqI iffI)
  fix x assume "x \<in> set (concat (concat R))"
  then obtain row vec where "row \<in> set R" "vec \<in> set row" "x \<in> set vec" by auto
  then obtain s a s' where "s < length R" "row = R ! s" "a < length row" "vec = row ! a"
    "s' < length vec" "x = vec ! s'"
    by (metis in_set_conv_nth)
  then show "x \<in> (\<lambda>(s, a, s'). R ! s ! a ! s') ` ({..<S} \<times> {..<A} \<times> {..<S})"
    using assms tensor_shape_nth [OF assms, of s a]
    by (auto simp: tensor_shape_def list_all_length intro!: image_eqI [of _ _ "(s, a, s')"])
next
  fix x assume "x \<in> (\<lambda>(s, a, s'). R ! s ! a ! s') ` ({..<S} \<times> {..<A} \<times> {..<S})"
  then obtain s a s' where i: "s < S" "a < A" "s' < S" and x: "x = R ! s ! a ! s'" by auto
  have "length R = S" "length (R ! s) = A" "length (R ! s ! a) = S"
    using assms i tensor_shape_nth [OF assms, of s a] by (auto simp: tensor_shape_def)
  then have "R ! s \<in> set R" "R ! s ! a \<in> set (R ! s)" "x \<in> set (R ! s ! a)"
    using i x by auto
  then show "x \<in> set (concat (concat R))" by auto
qed

lemma np_max_abs_rewards:
  assumes "tensor_shape S A R" and "0 < S" and "0 < A"
  shows "np_max (map abs (concat (concat R))) = Inr (Rmax_spec S A R)"
proof -
  have img: "set (map abs (concat (concat R))) =
             (\<lambda>(s, a, s'). \<bar>R ! s ! a ! s'\<bar>) ` ({..<S} \<times> {..<A} \<times> {..<S})"
    unfolding set_map set_concat_tensor [OF assms(1)] by (auto simp: image_image split_def)
  have "set (map abs (concat (concat R))) \<noteq> {}"
    unfolding img using assms(2,3) by (auto simp: lessThan_empty_iff)
  then have "map abs (concat (concat R)) \<noteq> []" by force
  then show ?thesis using np_max_eq_Max img by (simp add: Rmax_spec_def del: set_map set_concat)
qed

lemma np_max_abs_change:
  assumes "v \<noteq> []" and "same_shape next_v v"
  shows "np_max (map abs (np_subtract next_v v)) = Inr (sup_change_spec next_v v)"
proof -
  have eq: "map abs (np_subtract next_v v) = map (\<lambda>s. \<bar>entry next_v s - v ! s\<bar>) [0..<length v]"
    using assms(2) by (cases next_v) (auto intro!: nth_equalityI)
  have "map (\<lambda>s. \<bar>entry next_v s - v ! s\<bar>) [0..<length v] \<noteq> []" using assms(1) by simp
  from np_max_eq_Max [OF this] show ?thesis
    unfolding eq by (simp add: sup_change_spec_def atLeast0LessThan)
qed

lemma np_max_cases: "np_max xs = Inl ValueError \<or> (\<exists>m. np_max xs = Inr m)"
  by (cases xs) simp_all

lemma scenario_rmax: "Rmax_spec 2 (Suc 0) (env_rewards (env (scenario pt tau))) = 1"
  by (simp add: Rmax_spec_def scenario_simps lessThan_Suc numeral_2_eq_2)

text \<open>
  C3. On a nonempty reward tensor and a nonempty value vector, with a discount other
  than 0 and 1 (so that both quotients exist), \<open>_stop_condition\<close> returns the disjunction
  of the two tests: the largest one-step change is below
  \<open>precision / (2 * \<gamma> / (1 - \<gamma>))\<close>, or \<open>\<gamma> ^ itr * Rmax / (1 - \<gamma>)\<close> is below
  \<open>precision\<close>. Either test alone stops the iteration.
\<close>

theorem stop_condition_disjunction:
  assumes "tensor_shape S A (env_rewards (env st))" and "0 < S" and "0 < A"
    and "v \<noteq> []" and "same_shape next_v v"
    and "discount st \<noteq> 0" and "discount st \<noteq> 1"
  shows "stop_condition st itr next_v v =
           Inr (sup_change_spec next_v v < precision st / (2 * discount st / (1 - discount st)) \<or>
                discount st ^ itr * Rmax_spec S A (env_rewards (env st)) / (1 - discount st)
                  < precision st)"
  using assms(6,7)
  by (simp add: stop_condition_def np_max_abs_rewards [OF assms(1-3)]
        np_max_abs_change [OF assms(4,5)] py_div_def)


theorem stop_condition_disjunction_witness:
  "tensor_shape 2 1 (env_rewards (env (scenario ''deterministic'' 1))) \<and>
   same_shape (Array [1, 0]) [0, 0] \<and>
   discount (scenario ''deterministic'' 1) \<noteq> 0 \<and> discount (scenario ''deterministic'' 1) \<noteq> 1 \<and>
   \<not> sup_change_spec (Array [1, 0]) [0, 0] < (1 / 1000) / (2 * (9 / 10) / (1 - 9 / 10)) \<and>
   \<not> (9 / 10) ^ 87 * 1 / (1 - 9 / 10) < (1 / 1000 :: real) \<and>
   (9 / 10) ^ 88 * 1 / (1 - 9 / 10) < (1 / 1000 :: real) \<and>
   stop_condition (scenario ''deterministic'' 1) 87 (Array [1, 0]) [0, 0] = Inr False \<and>
   stop_condition (scenario ''deterministic'' 1) 88 (Array [1, 0]) [0, 0] = Inr True"
proof -
  let ?st = "scenario ''deterministic'' 1"
  have shape: "tensor_shape 2 1 (env_rewards (env ?st))"
    by (simp add: scenario_simps)
  have gamma: "discount ?st \<noteq> 0" "discount ?st \<noteq> 1" "discount ?st = 9 / 10"
    "precision ?st = 1 / 1000"
    by (simp_all add: scenario_simps)
  have change: "sup_change_spec (Array [1, 0]) [0, 0] = 1"
    by (simp add: sup_change_spec_def lessThan_Suc numeral_2_eq_2)
  have p87: "\<not> (9 / 10) ^ 87 * 1 / (1 - 9 / 10) < (1 / 1000 :: real)"
    and p88: "(9 / 10) ^ 88 * 1 / (1 - 9 / 10) < (1 / 1000 :: real)"
    by (simp_all add: power_divide)
  have "stop_condition ?st 87 (Array [1, 0]) [0, 0] = Inr False"
    using stop_condition_disjunction [OF shape _ _ _ _ gamma(1,2), of "[0, 0]" "Array [1, 0]" 87] p87
    by (simp add: scenario_rmax change gamma(3,4))
  moreover have "stop_condition ?st 88 (Array [1, 0]) [0, 0] = Inr True"
    using stop_condition_disjunction [OF shape _ _ _ _ gamma(1,2), of "[0, 0]" "Array [1, 0]" 88] p88
    by (simp add: scenario_rmax change gamma(3,4))
  ultimately show ?thesis using shape gamma(1,2) p87 p88 by (simp add: change)
qed

text \<open>
  C10. With discount 0 the quotient \<open>2 * \<gamma> / (1 - \<gamma>)\<close> is 0 and the threshold
  \<open>precision / (2 * \<gamma> / (1 - \<gamma>))\<close> divides by zero: on nonempty arrays the call
  raises \<open>ZeroDivisionError\<close>. With a discount strictly between 0 and 1 both
  quotients of \<open>_stop_condition\<close> have a nonzero divisor and the call raises no
  \<open>ZeroDivisionError\<close>.
\<close>

theorem stop_condition_division:
  "(discount st = 0 \<and> concat (concat (env_rewards (env st))) \<noteq> [] \<and> np_subtract next_v v \<noteq> []
      \<longrightarrow> py_div (precision st) (2 * discount st / (1 - discount st)) = Inl ZeroDivisionError \<and>
          stop_condition st itr next_v v = Inl ZeroDivisionError) \<and>
   (0 < discount st \<and> discount st < 1
      \<longrightarrow> (\<exists>bound. py_div (precision st) (2 * discount st / (1 - discount st)) = Inr bound) \<and>
          (\<exists>worst. py_div (discount st ^ itr * rmax) (1 - discount st) = Inr worst) \<and>
          stop_condition st itr next_v v \<noteq> Inl ZeroDivisionError)"
proof (intro conjI impI)
  assume a: "discount st = 0 \<and> concat (concat (env_rewards (env st))) \<noteq> [] \<and> np_subtract next_v v \<noteq> []"
  then obtain r rs c cs where "map abs (concat (concat (env_rewards (env st)))) = r # rs"
    "map abs (np_subtract next_v v) = c # cs"
    by (metis list.exhaust map_is_Nil_conv)
  then show "stop_condition st itr next_v v = Inl ZeroDivisionError"
    using a by (simp add: stop_condition_def py_div_def)
  show "py_div (precision st) (2 * discount st / (1 - discount st)) = Inl ZeroDivisionError"
    using a by (simp add: py_div_def)
next
  assume g: "0 < discount st \<and> discount st < 1"
  then show "\<exists>bound. py_div (precision st) (2 * discount st / (1 - discount st)) = Inr bound"
    and "\<exists>worst. py_div (discount st ^ itr * rmax) (1 - discount st) = Inr worst"
    by (simp_all add: py_div_def)
  show "stop_condition st itr next_v v \<noteq> Inl ZeroDivisionError"
    using g np_max_cases [of "map abs (concat (concat (env_rewards (env st))))"]
      np_max_cases [of "map abs (np_subtract next_v v)"]
    by (auto simp: stop_condition_def py_div_def)
qed

theorem stop_condition_division_witness:
  "stop_condition ((scenario ''deterministic'' 1)\<lparr>discount := 0\<rparr>) 0 (Scalar 1000000) [0, 0]
     = Inl ZeroDivisionError \<and>
   stop_condition (scenario ''deterministic'' 1) 0 (Scalar 1000000) [0, 0] = Inr False"
  using stop_condition_division [of "(scenario ''deterministic'' 1)\<lparr>discount := 0\<rparr>" "Scalar 1000000" "[0, 0]" 0 0]
    stop_condition_division [of "scenario ''deterministic'' 1" "Scalar 1000000" "[0, 0]" 0 0]
  by (simp add: scenario_simps stop_condition_def py_div_def)

section \<open>Construction and the training loop\<close>

lemma np_argmax_cases: "np_argmax xs = Inl ValueError \<or> (\<exists>b. np_argmax xs = Inr b)"
  by (cases xs) simp_all

lemma for_states_error:
  assumes "\<And>s out. body s out \<noteq> Inl e"
  shows "for_states body ss out \<noteq> Inl e"
proof (induction ss arbitrary: out)
  case Nil
  show ?case by simp
next
  case (Cons s ss)
  show ?case using assms [of s out] Cons.IH by (cases "body s out") simp_all
qed

lemma get_next_values_no_assertion: "get_next_values st \<noteq> Inl AssertionError"
proof -
  have "deterministic_value st s out \<noteq> Inl AssertionError" for s out
    using np_max_cases [of "action_values st s"] by (auto simp: deterministic_value_def)
  moreover have "max_ent_value st s out \<noteq> Inl AssertionError" for s out
    using np_max_cases [of "action_values st s"] by (auto simp: max_ent_value_def Let_def)
  ultimately show ?thesis
    by (simp add: get_next_values_def Let_def for_states_error)
qed

lemma get_next_policy_no_assertion: "get_next_policy st \<noteq> Inl AssertionError"
proof -
  have "deterministic_policy st s out \<noteq> Inl AssertionError" for s out
    using np_argmax_cases [of "action_values st s"] by (auto simp: deterministic_policy_def)
  moreover have "max_ent_policy st s out \<noteq> Inl AssertionError" for s out
    using np_max_cases [of "action_values st s"] by (auto simp: max_ent_policy_def Let_def)
  ultimately show ?thesis
    by (simp add: get_next_policy_def Let_def for_states_error)
qed

lemma stop_condition_no_assertion: "stop_condition st itr next_v v \<noteq> Inl AssertionError"
  using np_max_cases [of "map abs (concat (concat (env_rewards (env st))))"]
    np_max_cases [of "map abs (np_subtract next_v v)"]
  by (auto simp: stop_condition_def py_div_def Let_def split: if_splits)

lemma log_step_Inr:
  assumes "log_step st itr tr = Inr (st1, tr1)"
  shows "max_itr st1 = max_itr st" and "value_updates tr1 = value_updates tr"
  using assms
  by (auto simp: log_step_def Let_def update_policy_def value_updates_def
        split: if_splits sum.splits)

lemma log_step_no_assertion: "log_step st itr tr \<noteq> Inl AssertionError"
  using get_next_policy_no_assertion [of st]
  by (auto simp: log_step_def Let_def split: sum.splits)

lemma train_loop_facts: "loop_facts st v itr next_v tr (train_loop st v itr next_v tr)"
proof (induction st v itr next_v tr rule: train_loop.induct)
  case (1 st v itr next_v tr)
  show ?case
  proof (cases "stop_condition st itr next_v v")
    case (Inl e)
    then have "train_loop st v itr next_v tr =
                 \<lparr>raised = Some e, final = st, final_itr = itr, writes = tr\<rparr>"
      by (subst train_loop.simps) simp
    then show ?thesis
      using Inl stop_condition_no_assertion [of st itr next_v v]
      by (auto simp: loop_facts_def)
  next
    case (Inr stop)
    show ?thesis
    proof (cases "\<not> stop \<and> int itr < max_itr st")
      case False
      then have "train_loop st v itr next_v tr =
                   \<lparr>raised = None, final = st, final_itr = itr, writes = tr\<rparr>"
        using Inr by (subst train_loop.simps) auto
      then show ?thesis using Inr False by (auto simp: loop_facts_def)
    next
      case True
      show ?thesis
      proof (cases "log_step st itr tr")
        case (Inl e)
        then have "train_loop st v itr next_v tr =
                     \<lparr>raised = Some e, final = st, final_itr = itr, writes = tr\<rparr>"
          using Inr True by (subst train_loop.simps) simp
        then show ?thesis
          using Inl log_step_no_assertion [of st itr tr] by (auto simp: loop_facts_def)
      next
        case step: (Inr p)
        obtain st1 tr1 where p: "p = (st1, tr1)" by (cases p)
        note ls = log_step_Inr [OF step [unfolded p]]
        show ?thesis
        proof (cases "get_next_values st1")
          case (Inl e)
          then have "train_loop st v itr next_v tr =
                       \<lparr>raised = Some e, final = st1, final_itr = itr, writes = tr1\<rparr>"
            using Inr True step p by (subst train_loop.simps) simp
          then show ?thesis
            using Inl get_next_values_no_assertion [of st1] ls by (auto simp: loop_facts_def)
        next
          case nv: (Inr nv)
          let ?r = "train_loop (update_value_fun st1 nv) v (Suc itr) (Array nv)
                      (tr1 @ [Value_update nv])"
          have eq: "train_loop st v itr next_v tr = ?r"
            using Inr True step p nv by (subst train_loop.simps) simp
          have IH: "loop_facts (update_value_fun st1 nv) v (Suc itr) (Array nv)
                      (tr1 @ [Value_update nv]) ?r"
            using "1.IH" [OF Inr True step p [symmetric] nv] .
          have m: "max_itr (update_value_fun st1 nv) = max_itr st"
            using ls(1) by (simp add: update_value_fun_def)
          have vu: "value_updates (tr1 @ [Value_update nv]) = Suc (value_updates tr)"
            using ls(2) by (simp add: value_updates_def)
          show ?thesis
            unfolding eq using IH True Inr unfolding loop_facts_def m vu by auto
        qed
      qed
    qed
  qed
qed


lemma train_cases:
  fixes st
  defines "r \<equiv> train_loop st (get_values st) 0 (Scalar 1000000) []"
  shows "(\<exists>e. raised r = Some e \<and> train st = r) \<or>
         (\<exists>e. raised r = None \<and> get_next_policy (final r) = Inl e \<and>
              train st = r\<lparr>raised := Some e\<rparr>) \<or>
         (\<exists>next_pi. raised r = None \<and> get_next_policy (final r) = Inr next_pi \<and>
              train st = r\<lparr>final := update_policy (final r) next_pi,
                           writes := writes r @ [Policy_update next_pi]\<rparr>)"
proof (cases "raised r")
  case None
  show ?thesis
  proof (cases "get_next_policy (final r)")
    case (Inl e)
    then have "train st = r\<lparr>raised := Some e\<rparr>"
      using None unfolding train_def Let_def r_def by simp
    then show ?thesis using None Inl by blast
  next
    case (Inr next_pi)
    then have "train st = r\<lparr>final := update_policy (final r) next_pi,
                            writes := writes r @ [Policy_update next_pi]\<rparr>"
      using None unfolding train_def Let_def r_def by simp
    then show ?thesis using None Inr by blast
  qed
next
  case (Some e)
  then have "train st = r" unfolding train_def Let_def r_def by simp
  then show ?thesis using Some by blast
qed

lemma train_no_assertion: "raised (train st) \<noteq> Some AssertionError"
proof -
  let ?r = "train_loop st (get_values st) 0 (Scalar 1000000) []"
  have r: "raised ?r \<noteq> Some AssertionError"
    using train_loop_facts [of st "get_values st" 0 "Scalar 1000000" "[]"]
    by (simp add: loop_facts_def)
  from train_cases [of st] show ?thesis
  proof (elim disjE exE conjE)
    fix e assume "raised ?r = Some e" "train st = ?r"
    then show ?thesis using r by simp
  next
    fix e assume "get_next_policy (final ?r) = Inl e" "train st = ?r\<lparr>raised := Some e\<rparr>"
    then show ?thesis using get_next_policy_no_assertion [of "final ?r"] by auto
  next
    fix next_pi
    assume "raised ?r = None"
      "train st = ?r\<lparr>final := update_policy (final ?r) next_pi,
                         writes := writes ?r @ [Policy_update next_pi]\<rparr>"
    then show ?thesis by simp
  qed
qed

lemma stop_condition_update_policy:
  "stop_condition (update_policy st p) itr next_v v = stop_condition st itr next_v v"
  by (simp add: stop_condition_def update_policy_def cong: sum.case_cong)

lemma get_next_policy_update_policy:
  "get_next_policy (update_policy st p) = get_next_policy st"
proof -
  have av: "action_values (update_policy st p) s = action_values st s" for s
    by (simp add: action_values_def expected_value_def num_actions_def get_values_def
          update_policy_def)
  have tau: "temperature (update_policy st p) = temperature st"
    by (simp add: update_policy_def)
  have dp: "deterministic_policy (update_policy st p) = deterministic_policy st"
    by (intro ext) (simp add: deterministic_policy_def av cong: sum.case_cong)
  have mp: "max_ent_policy (update_policy st p) = max_ent_policy st"
    by (intro ext) (simp add: max_ent_policy_def av tau cong: sum.case_cong)
  have fields: "num_states (update_policy st p) = num_states st"
    "num_actions (update_policy st p) = num_actions st"
    "policy_type (update_policy st p) = policy_type st"
    by (simp_all add: update_policy_def num_states_def num_actions_def)
  show ?thesis
    by (simp only: get_next_policy_def dp mp fields)
qed

lemmas eval_simps =
  stop_condition_def py_div_def log_step_def get_next_policy_def get_next_values_def
  deterministic_policy_def deterministic_value_def action_values_def expected_value_def
  np_sum_def get_values_def update_policy_def update_value_fun_def upt_conv_Cons

text \<open>
  C8. The constructor fails with the assertion's error when \<open>policy_type\<close> is neither
  \<open>deterministic\<close> nor \<open>max_ent\<close>; for either of the two it returns the object, and no
  later operation (\<open>get_next_values\<close>, \<open>get_next_policy\<close>, \<open>_stop_condition\<close>, \<open>train\<close>)
  can end in that error.
\<close>

theorem init_validates_policy_type:
  "(pt \<notin> {''deterministic'', ''max_ent''} \<longrightarrow>
      init e vf pol prec li ri pt mi rn nr tau = Inl AssertionError) \<and>
   (pt \<in> {''deterministic'', ''max_ent''} \<longrightarrow>
      (\<exists>st. init e vf pol prec li ri pt mi rn nr tau = Inr st \<and> policy_type st = pt \<and>
         get_next_values st \<noteq> Inl AssertionError \<and>
         get_next_policy st \<noteq> Inl AssertionError \<and>
         stop_condition st itr next_v v \<noteq> Inl AssertionError \<and>
         raised (train st) \<noteq> Some AssertionError))"
  using get_next_values_no_assertion get_next_policy_no_assertion
    stop_condition_no_assertion train_no_assertion
  by (simp add: init_def)

theorem init_validates_policy_type_witness:
  "init scenario_env [0, 0] [] (1 / 1000) 1 2 ''greedy'' 50 True 20 1 = Inl AssertionError \<and>
   init scenario_env [0, 0] [] (1 / 1000) 1 2 ''max_ent'' 50 True 20 1
     = Inr (scenario ''max_ent'' 1) \<and>
   get_next_values (scenario ''max_ent'' 1) \<noteq> Inl AssertionError \<and>
   raised (train (scenario ''max_ent'' 1)) \<noteq> Some AssertionError"
  using init_validates_policy_type [of "''greedy''" scenario_env "[0, 0]" "[]" "1 / 1000" 1 2 50 True 20 1]
    init_validates_policy_type [of "''max_ent''" scenario_env "[0, 0]" "[]" "1 / 1000" 1 2 50 True 20 1]
  by (auto simp: init_def scenario_def configure_def)

text \<open>
  C9. \<open>train\<close> is a total function: its loop is defined by recursion on
  \<open>max_itr - itr\<close>, the collaborators being taken to return. The number of writes to
  the value container equals the final counter, which is at most \<open>max_itr\<close>; a loop
  head from which a value write follows has \<open>_stop_condition\<close> false and
  \<open>itr < max_itr\<close>; when \<open>train\<close> returns normally the loop was left on convergence or on
  an exhausted budget, and the last write is the policy recomputed from the final
  state, which the policy container then holds; this also happens when the body never
  ran.
\<close>

theorem train_terminates_within_budget:
  "value_updates (writes (train st)) = final_itr (train st) \<and>
   int (final_itr (train st)) \<le> max 0 (max_itr st) \<and>
   (value_updates tr < value_updates (writes (train_loop st v itr next_v tr)) \<longrightarrow>
      stop_condition st itr next_v v = Inr False \<and> int itr < max_itr st) \<and>
   (raised (train st) = None \<longrightarrow>
      (\<not> int (final_itr (train st)) < max_itr st \<or>
       (\<exists>nv. stop_condition (final (train st)) (final_itr (train st)) nv (value_fun st) = Inr True)) \<and>
      get_next_policy (final (train st)) = Inr (policy (final (train st))) \<and>
      writes (train st) \<noteq> [] \<and>
      last (writes (train st)) = Policy_update (policy (final (train st)))) \<and>
   ((stop_condition st 0 (Scalar 1000000) (value_fun st) = Inr True \<or>
     stop_condition st 0 (Scalar 1000000) (value_fun st) = Inr False \<and> max_itr st \<le> 0) \<and>
    get_next_policy st = Inr next_pi \<longrightarrow>
      train st = \<lparr>raised = None, final = update_policy st next_pi, final_itr = 0,
                  writes = [Policy_update next_pi]\<rparr>)"
proof -
  let ?r = "train_loop st (get_values st) 0 (Scalar 1000000) []"
  have facts: "loop_facts st (get_values st) 0 (Scalar 1000000) [] ?r"
    by (rule train_loop_facts)
  have same: "final_itr (train st) = final_itr ?r \<and>
              value_updates (writes (train st)) = value_updates (writes ?r)"
    using train_cases [of st]
    by (elim disjE exE conjE) (simp_all add: value_updates_def)
  have c1: "value_updates (writes (train st)) = final_itr (train st)"
    using facts same by (simp add: loop_facts_def value_updates_def)
  have c2: "int (final_itr (train st)) \<le> max 0 (max_itr st)"
    using facts same by (simp add: loop_facts_def)
  have c3: "value_updates tr < value_updates (writes (train_loop st v itr next_v tr)) \<longrightarrow>
      stop_condition st itr next_v v = Inr False \<and> int itr < max_itr st"
    using train_loop_facts [of st v itr next_v tr] by (simp add: loop_facts_def)
  have c4: "(\<not> int (final_itr (train st)) < max_itr st \<or>
       (\<exists>nv. stop_condition (final (train st)) (final_itr (train st)) nv (value_fun st) = Inr True)) \<and>
      get_next_policy (final (train st)) = Inr (policy (final (train st))) \<and>
      writes (train st) \<noteq> [] \<and>
      last (writes (train st)) = Policy_update (policy (final (train st)))"
    if ok: "raised (train st) = None"
  proof -
    from train_cases [of st] ok obtain next_pi where r: "raised ?r = None"
      and pi: "get_next_policy (final ?r) = Inr next_pi"
      and t: "train st = ?r\<lparr>final := update_policy (final ?r) next_pi,
                               writes := writes ?r @ [Policy_update next_pi]\<rparr>"
      by (elim disjE exE conjE) simp_all
    have exit: "\<not> int (final_itr ?r) < max_itr st \<or>
       (\<exists>nv. stop_condition (final ?r) (final_itr ?r) nv (value_fun st) = Inr True)"
      using facts r by (simp add: loop_facts_def get_values_def)
    have p: "policy (update_policy (final ?r) next_pi) = next_pi"
      by (simp add: update_policy_def)
    show ?thesis
      using exit pi
      by (simp add: t stop_condition_update_policy get_next_policy_update_policy p)
  qed
  have c5: "train st = \<lparr>raised = None, final = update_policy st next_pi, final_itr = 0,
                  writes = [Policy_update next_pi]\<rparr>"
    if h: "(stop_condition st 0 (Scalar 1000000) (value_fun st) = Inr True \<or>
         stop_condition st 0 (Scalar 1000000) (value_fun st) = Inr False \<and> max_itr st \<le> 0) \<and>
        get_next_policy st = Inr next_pi"
  proof -
    have "?r = \<lparr>raised = None, final = st, final_itr = 0, writes = []\<rparr>"
      using h by (subst train_loop.simps) (auto simp: get_values_def)
    then show ?thesis using h by (simp add: train_def Let_def)
  qed
  show ?thesis using c1 c2 c3 c4 c5 by blast
qed


theorem train_terminates_within_budget_witness:
  "raised (train (scenario ''deterministic'' 1\<lparr>max_itr := 1\<rparr>)) = None \<and>
   writes (train (scenario ''deterministic'' 1\<lparr>max_itr := 1\<rparr>)) =
     [Policy_update [[1], [1]], Value_update [1, 0], Policy_update [[1], [1]]] \<and>
   final_itr (train (scenario ''deterministic'' 1\<lparr>max_itr := 1\<rparr>)) = 1 \<and>
   value_fun (final (train (scenario ''deterministic'' 1\<lparr>max_itr := 1\<rparr>))) = [1, 0] \<and>
   get_next_policy (final (train (scenario ''deterministic'' 1\<lparr>max_itr := 1\<rparr>))) = Inr [[1], [1]] \<and>
   stop_condition (scenario ''deterministic'' 1\<lparr>max_itr := 1\<rparr>) 0 (Scalar 1000000) [0, 0] = Inr False \<and>
   train (scenario ''deterministic'' 1\<lparr>max_itr := 0\<rparr>) =
     \<lparr>raised = None,
      final = update_policy (scenario ''deterministic'' 1\<lparr>max_itr := 0\<rparr>) [[1], [1]],
      final_itr = 0, writes = [Policy_update [[1], [1]]]\<rparr>"
proof -
  let ?st1 = "scenario ''deterministic'' 1\<lparr>max_itr := 1\<rparr>"
  let ?st0 = "scenario ''deterministic'' 1\<lparr>max_itr := 0\<rparr>"
  have loop: "train_loop ?st1 [0, 0] 0 (Scalar 1000000) [] =
     \<lparr>raised = None, final = ?st1\<lparr>policy := [[1], [1]], value_fun := [1, 0]\<rparr>,
      final_itr = 1, writes = [Policy_update [[1], [1]], Value_update [1, 0]]\<rparr>"
    apply (subst train_loop.simps)
    apply (simp add: eval_simps scenario_simps)
    apply (subst train_loop.simps)
    apply (simp add: eval_simps scenario_simps)
    done
  have run: "train ?st1 =
     \<lparr>raised = None, final = ?st1\<lparr>policy := [[1], [1]], value_fun := [1, 0]\<rparr>,
      final_itr = 1,
      writes = [Policy_update [[1], [1]], Value_update [1, 0], Policy_update [[1], [1]]]\<rparr>"
    unfolding train_def Let_def
    using loop by (simp add: eval_simps scenario_simps)
  have start: "stop_condition ?st1 0 (Scalar 1000000) [0, 0] = Inr False"
    "stop_condition ?st0 0 (Scalar 1000000) (value_fun ?st0) = Inr False"
    "max_itr ?st0 \<le> 0" "get_next_policy ?st0 = Inr [[1], [1]]"
    by (simp_all add: eval_simps scenario_simps)
  have last: "get_next_policy (?st1\<lparr>policy := [[1], [1]], value_fun := [1, 0]\<rparr>) = Inr [[1], [1]]"
    by (simp add: eval_simps scenario_simps)
  have never_ran: "train ?st0 =
     \<lparr>raised = None, final = update_policy ?st0 [[1], [1]], final_itr = 0,
      writes = [Policy_update [[1], [1]]]\<rparr>"
    using train_terminates_within_budget [of ?st0 "[]" "[0, 0]" 0 "Scalar 1000000" "[[1], [1]]"]
      start(2-4)
    by blast
  show ?thesis
    using train_terminates_within_budget [of ?st1 "[]" "[0, 0]" 0 "Scalar 1000000" "[[1], [1]]"]
      run start(1) last never_ran
    by simp
qed

section \<open>Temperature limits\<close>

text \<open>
  With the temperature as the variable, the other fields fixed: the values the code
  returns in max-entropy mode vanish as the temperature tends to 0 from above, and the
  max-entropy policy tends to the uniform distribution as the temperature grows.
\<close>

lemma temperature_update_fields:
  "shape_ok (st\<lparr>temperature := tau\<rparr>) = shape_ok st"
  "num_states (st\<lparr>temperature := tau\<rparr>) = num_states st"
  "num_actions (st\<lparr>temperature := tau\<rparr>) = num_actions st"
  "policy_type (st\<lparr>temperature := tau\<rparr>) = policy_type st"
  "value_fun (st\<lparr>temperature := tau\<rparr>) = value_fun st"
  "temperature (st\<lparr>temperature := tau\<rparr>) = tau"
  "Q_spec (st\<lparr>temperature := tau\<rparr>) V s a = Q_spec st V s a"
  "max_Q_spec (st\<lparr>temperature := tau\<rparr>) V s = max_Q_spec st V s"
  by (simp_all add: shape_ok_def num_states_def num_actions_def Q_spec_def max_Q_spec_def)

lemma max_ent_values_vanish:
  assumes "shape_ok st" and "policy_type st = ''max_ent''"
    and "0 < num_actions st" and "s < num_states st"
  shows "((\<lambda>tau. value_at (get_next_values (st\<lparr>temperature := tau\<rparr>)) s) \<longlongrightarrow> 0) (at_right 0)"
proof -
  let ?f = "\<lambda>tau. value_at (get_next_values (st\<lparr>temperature := tau\<rparr>)) s"
  let ?A = "real (num_actions st)"
  have val: "?f tau = ln (soft_sum (st\<lparr>temperature := tau\<rparr>) (value_fun st) s) * tau" for tau
    using get_next_values_max_ent [of "st\<lparr>temperature := tau\<rparr>"] assms
    by (simp add: value_at_def temperature_update_fields)
  have bounds: "0 \<le> ?f tau \<and> ?f tau \<le> tau * ln ?A" if "0 < tau" for tau
  proof -
    have lo: "1 \<le> soft_sum (st\<lparr>temperature := tau\<rparr>) (value_fun st) s"
      and hi: "soft_sum (st\<lparr>temperature := tau\<rparr>) (value_fun st) s \<le> ?A"
      using soft_sum_bounds [of "st\<lparr>temperature := tau\<rparr>" "value_fun st" s] assms(3) that
      by (simp_all add: temperature_update_fields)
    have "0 \<le> ln (soft_sum (st\<lparr>temperature := tau\<rparr>) (value_fun st) s)" using lo by simp
    moreover have "ln (soft_sum (st\<lparr>temperature := tau\<rparr>) (value_fun st) s) \<le> ln ?A"
      using lo hi by simp
    ultimately show ?thesis using that by (simp add: val mult.commute)
  qed
  have pos: "\<forall>\<^sub>F tau in at_right (0::real). 0 < tau"
    by (rule eventually_at_right_less)
  have "((\<lambda>tau. tau * ln ?A) \<longlongrightarrow> 0 * ln ?A) (at_right 0)"
    by (intro tendsto_mult tendsto_const tendsto_ident_at)
  then have upper: "((\<lambda>tau. tau * ln ?A) \<longlongrightarrow> 0) (at_right 0)" by simp
  show ?thesis
  proof (rule tendsto_sandwich [OF _ _ tendsto_const upper])
    show "\<forall>\<^sub>F tau in at_right 0. 0 \<le> ?f tau"
      using pos by (rule eventually_mono) (use bounds in blast)
    show "\<forall>\<^sub>F tau in at_right 0. ?f tau \<le> tau * ln ?A"
      using pos by (rule eventually_mono) (use bounds in blast)
  qed
qed

lemma max_ent_policy_uniform:
  assumes "shape_ok st" and "policy_type st = ''max_ent''"
    and "s < num_states st" and "a < num_actions st"
  shows "((\<lambda>tau. policy_at (get_next_policy (st\<lparr>temperature := tau\<rparr>)) s a)
           \<longlongrightarrow> 1 / real (num_actions st)) at_top"
proof -
  let ?V = "value_fun st" and ?A = "num_actions st"
  let ?e = "\<lambda>b tau. exp ((Q_spec st ?V s b - max_Q_spec st ?V s) / tau)"
  have A: "0 < ?A" using assms(4) by simp
  have val: "policy_at (get_next_policy (st\<lparr>temperature := tau\<rparr>)) s a =
             ?e a tau / (\<Sum>b < ?A. ?e b tau)" for tau
    using get_next_policy_max_ent_eq [of "st\<lparr>temperature := tau\<rparr>"] assms A
    by (simp add: policy_at_def temperature_update_fields softmax_spec_def soft_sum_def)
  have one: "(?e b \<longlongrightarrow> 1) at_top" for b
  proof -
    have "((\<lambda>tau. (Q_spec st ?V s b - max_Q_spec st ?V s) / tau) \<longlongrightarrow> 0) at_top"
      by (rule tendsto_divide_0 [OF tendsto_const])
         (rule filterlim_at_top_imp_at_infinity [OF filterlim_ident])
    from tendsto_exp [OF this] show ?thesis by simp
  qed
  have "((\<lambda>tau. \<Sum>b < ?A. ?e b tau) \<longlongrightarrow> (\<Sum>b < ?A. 1)) at_top"
    by (intro tendsto_sum one)
  then have total: "((\<lambda>tau. \<Sum>b < ?A. ?e b tau) \<longlongrightarrow> real ?A) at_top" by simp
  have "((\<lambda>tau. ?e a tau / (\<Sum>b < ?A. ?e b tau)) \<longlongrightarrow> 1 / real ?A) at_top"
    using A by (intro tendsto_divide one total) simp
  then show ?thesis by (simp add: val)
qed

text \<open>
  C7. The spec lets the max-entropy values tend to the deterministic values
  \<open>max Q(s,.)\<close> as the temperature tends to 0. In the code the maximum is not added
  back, so the values tend to 0: on the spec's concrete scenario the deterministic
  backup gives 1 in state 0 while the max-entropy value of state 0 tends to 0.
\<close>

theorem max_ent_values_do_not_tend_to_max:
  "get_next_values (scenario ''deterministic'' 1) = Inr [1, 0] \<and>
   ((\<lambda>tau. value_at (get_next_values (scenario ''max_ent'' tau)) 0) \<longlongrightarrow> 0) (at_right 0)"
proof
  show "get_next_values (scenario ''deterministic'' 1) = Inr [1, 0]"
    by (simp add: scenario_simps get_next_values_def deterministic_value_def action_values_def
        expected_value_def np_sum_def get_values_def upt_conv_Cons)
  have eq: "scenario ''max_ent'' tau = (scenario ''max_ent'' 1)\<lparr>temperature := tau\<rparr>" for tau
    by (simp add: scenario_def configure_def)
  have lim: "((\<lambda>tau. value_at (get_next_values ((scenario ''max_ent'' 1)\<lparr>temperature := tau\<rparr>)) 0)
          \<longlongrightarrow> 0) (at_right 0)"
    by (rule max_ent_values_vanish) (simp_all add: scenario_simps)
  show "((\<lambda>tau. value_at (get_next_values (scenario ''max_ent'' tau)) 0) \<longlongrightarrow> 0) (at_right 0)"
    by (subst eq) (rule lim)
qed


end
